theory Spec2Isabelle
  imports Main "HOL-Library.Word"
begin

section \<open>Values of the Go program\<close>

text \<open>
  The package is compiled for a 64-bit platform: Go's \<open>int\<close> and \<open>time.Duration\<close>
  (an \<open>int64\<close> count of nanoseconds) are both 64-bit two's complement words. Arithmetic
  wraps around, comparisons are signed (\<open><s\<close>, \<open>\<le>s\<close>).
\<close>

type_synonym go_int = "64 word"
type_synonym Duration = "64 word"

text \<open>
  A non-nil value of the interface type \<open>error\<close> is either some error of the caller
  (\<open>Plain\<close>) or the package's own \<open>breakError\<close> struct, which embeds an \<open>error\<close> that may
  itself be nil. The nil interface value is \<open>None\<close>.
\<close>

datatype 'e err = Plain 'e | BreakError "'e err option"

type_synonym 'e error = "'e err option"

text \<open>Run-time panics that the delay strategies can raise.\<close>

datatype panic = NegativeShiftAmount | InvalidArgumentToInt63n

section \<open>Delay strategies (option.go)\<close>

definition FixedDelay :: "Duration \<Rightarrow> go_int \<Rightarrow> 'e error \<Rightarrow> Duration" where
  "FixedDelay delay n err = delay"

definition LinearDelay :: "Duration \<Rightarrow> Duration \<Rightarrow> go_int \<Rightarrow> 'e error \<Rightarrow> Duration" where
  "LinearDelay baseDelay maxDelay n err =
     (let delay = baseDelay * (n + 1)
      in if maxDelay <s delay \<or> delay <s 0 then maxDelay else delay)"

text \<open>
  \<open>baseDelay << n\<close> with a signed shift count: Go panics when the count is negative, and
  a count of 64 or more shifts every bit out.
\<close>

definition ExponentialDelay ::
  "Duration \<Rightarrow> Duration \<Rightarrow> go_int \<Rightarrow> 'e error \<Rightarrow> panic + Duration" where
  "ExponentialDelay baseDelay maxDelay n err =
     (if n <s 0 then Inl NegativeShiftAmount
      else let delay = push_bit (unat n) baseDelay
           in Inr (if maxDelay <s delay \<or> delay <s 0 then maxDelay else delay))"

text \<open>
  \<open>rand.Int63n\<close> belongs to the standard library. Its generator is the parameter \<open>draw\<close>,
  which maps the bound and the state \<open>'r\<close> of the global source to the number drawn and
  the next state; \<open>Int63n_contract\<close> is the documented range of the result, and the
  documented panic on a bound \<open>n \<le> 0\<close> is a branch of \<open>Int63n\<close>.
\<close>

definition Int63n ::
  "(64 word \<Rightarrow> 'r \<Rightarrow> 64 word \<times> 'r) \<Rightarrow> 64 word \<Rightarrow> 'r \<Rightarrow> panic + 64 word \<times> 'r" where
  "Int63n draw n r = (if n \<le>s 0 then Inl InvalidArgumentToInt63n else Inr (draw n r))"

definition Int63n_contract :: "(64 word \<Rightarrow> 'r \<Rightarrow> 64 word \<times> 'r) \<Rightarrow> bool" where
  "Int63n_contract draw \<longleftrightarrow>
     (\<forall>n r. 0 <s n \<longrightarrow> 0 \<le>s fst (draw n r) \<and> fst (draw n r) <s n)"

text \<open>
  \<open>RandomDelay\<close> normalises its two arguments once, when the strategy is built, and
  returns a closure over the normalised values.
\<close>

definition RandomDelay ::
  "(64 word \<Rightarrow> 'r \<Rightarrow> 64 word \<times> 'r) \<Rightarrow> Duration \<Rightarrow> Duration
     \<Rightarrow> go_int \<Rightarrow> 'e error \<Rightarrow> 'r \<Rightarrow> panic + Duration \<times> 'r" where
  "RandomDelay draw minDelay0 maxDelay0 =
     (let minDelay = (if minDelay0 <s 0 then 0 else minDelay0);
          maxDelay = (if maxDelay0 <s minDelay then minDelay else maxDelay0)
      in (\<lambda>n err r.
            if minDelay <s maxDelay
            then (case Int63n draw (maxDelay - minDelay + 1) r of
                    Inl p \<Rightarrow> Inl p
                  | Inr (v, r') \<Rightarrow> Inr (minDelay + v, r'))
            else Inr (minDelay, r)))"

section \<open>Configuration, context and the retry loop (retry.go)\<close>

text \<open>
  The operation, the two observers and the delay strategy are Go closures: they may read
  and change any state they have captured. That state is the type parameter \<open>'s\<close>, passed
  through every call. A field of function type may be nil (\<open>None\<close>). The callbacks are
  taken to return normally.
\<close>

record ('e, 's) Config =
  RetryTimes :: go_int
  OnRetry :: "(go_int \<Rightarrow> 's \<Rightarrow> 's) option"
  OnFailed :: "(go_int \<Rightarrow> 'e error \<Rightarrow> 's \<Rightarrow> 's) option"
  DelayStrategy :: "(go_int \<Rightarrow> 'e error \<Rightarrow> 's \<Rightarrow> Duration \<times> 's) option"

type_synonym ('e, 's) Option = "('e, 's) Config \<Rightarrow> ('e, 's) Config"

definition WithTimes :: "go_int \<Rightarrow> ('e, 's) Option" where
  "WithTimes retryTimes = (\<lambda>c. c\<lparr>RetryTimes := retryTimes\<rparr>)"

definition WithOnRetryFunc :: "(go_int \<Rightarrow> 's \<Rightarrow> 's) option \<Rightarrow> ('e, 's) Option" where
  "WithOnRetryFunc fn = (\<lambda>c. c\<lparr>OnRetry := fn\<rparr>)"

definition WithOnFailedFunc ::
  "(go_int \<Rightarrow> 'e error \<Rightarrow> 's \<Rightarrow> 's) option \<Rightarrow> ('e, 's) Option" where
  "WithOnFailedFunc fn = (\<lambda>c. c\<lparr>OnFailed := fn\<rparr>)"

definition WithDelayStrategy ::
  "(go_int \<Rightarrow> 'e error \<Rightarrow> 's \<Rightarrow> Duration \<times> 's) option \<Rightarrow> ('e, 's) Option" where
  "WithDelayStrategy delayType = (\<lambda>c. c\<lparr>DelayStrategy := delayType\<rparr>)"

definition NewConfig :: "('e, 's) Option list \<Rightarrow> ('e, 's) Config" where
  "NewConfig opts =
     fold (\<lambda>opt config. opt config) opts
       \<lparr>RetryTimes = 0, OnRetry = None, OnFailed = None, DelayStrategy = None\<rparr>"

definition Break :: "'e error \<Rightarrow> 'e error" where
  "Break err = Some (BreakError err)"

text \<open>
  The type assertion \<open>v, breakRetry := err.(breakError)\<close>: on success the embedded error
  and \<open>true\<close>, otherwise the zero \<open>breakError\<close> (whose embedded error is nil) and \<open>false\<close>.
\<close>

fun as_breakError :: "'e error \<Rightarrow> 'e error \<times> bool" where
  "as_breakError (Some (BreakError v)) = (v, True)"
| "as_breakError err = (None, False)"

text \<open>
  The context and the clock are the environment of a run. \<open>Err\<close> is \<open>ctx.Err()\<close>. \<open>race\<close>
  is the \<open>select\<close> statement: given the duration handed to \<open>time.After\<close>, it tells which
  of the two channels was received from, the timer's or \<open>ctx.Done()\<close>.
\<close>

datatype chosen = TimerFired | CtxDone

record ('e, 's) Context =
  Err :: "'s \<Rightarrow> 'e error"
  race :: "Duration \<Rightarrow> 's \<Rightarrow> chosen \<times> 's"

text \<open>
  What a run does is recorded in a trace: one event for every call of a callback or of
  the operation, with the loop counter \<open>n\<close> at that moment, and one for every \<open>select\<close>.
\<close>

datatype 'e event =
    EvOnRetry go_int
  | EvFn go_int "'e error"
  | EvOnFailed go_int "'e error"
  | EvDelay go_int "'e error" Duration
  | EvTimer
  | EvCtxDone

text \<open>
  The \<open>for\<close> loop of \<open>Config.Do\<close>, entered with the counter \<open>n\<close>. The result is the error
  returned, the final state and the trace.
\<close>

function do_loop ::
  "('e, 's) Context \<Rightarrow> ('s \<Rightarrow> 'e error \<times> 's) \<Rightarrow> (go_int \<Rightarrow> 's \<Rightarrow> 's)
     \<Rightarrow> (go_int \<Rightarrow> 'e error \<Rightarrow> 's \<Rightarrow> 's) \<Rightarrow> (go_int \<Rightarrow> 'e error \<Rightarrow> 's \<Rightarrow> Duration \<times> 's)
     \<Rightarrow> go_int \<Rightarrow> go_int \<Rightarrow> 's \<Rightarrow> 'e error \<times> 's \<times> 'e event list" where
  "do_loop ctx fn onRetry onFailed delayStrategy retryTimes n s =
     (let s1 = (if 0 <s n then onRetry n s else s);
          t1 = (if 0 <s n then [EvOnRetry n] else []);
          (r, s2) = fn s1;
          (v, breakRetry) = as_breakError r;
          err = (if breakRetry then v else r)
      in if err = None then (None, s2, t1 @ [EvFn n r])
         else
           let s3 = onFailed n err s2;
               breakRetry = (if retryTimes \<le>s n then True else breakRetry)
           in if breakRetry then (err, s3, t1 @ [EvFn n r, EvOnFailed n err])
              else
                let (d, s4) = delayStrategy n err s3;
                    (c, s5) = race ctx d s4
                in (case c of
                      TimerFired \<Rightarrow>
                        (let (err', s', t') =
                               do_loop ctx fn onRetry onFailed delayStrategy retryTimes (n + 1) s5
                         in (err', s',
                             t1 @ [EvFn n r, EvOnFailed n err, EvDelay n err d, EvTimer] @ t'))
                    | CtxDone \<Rightarrow>
                        (Err ctx s5, s5,
                         t1 @ [EvFn n r, EvOnFailed n err, EvDelay n err d, EvCtxDone])))"
  by pat_completeness auto

text \<open>
  The loop increments \<open>n\<close> only when \<open>n >= RetryTimes\<close> is false; then the two differ,
  and the wrapped distance from \<open>n\<close> to \<open>RetryTimes\<close> shrinks by one.
\<close>

termination
  apply (relation "measure (\<lambda>(ctx, fn, onRetry, onFailed, delayStrategy, retryTimes, n, s).
                            unat (retryTimes - n))")
   apply simp
  apply (auto simp: diff_diff_eq [symmetric] unat_minus_one unat_gt_0 split: if_splits)
  done

text \<open>
  \<open>Config.Do\<close> has a pointer receiver: the defaults it stores in nil fields stay in the
  caller's \<open>Config\<close>, so the model returns the configuration as well.
\<close>

definition Config_Do ::
  "('e, 's) Context \<Rightarrow> ('e, 's) Config \<Rightarrow> ('s \<Rightarrow> 'e error \<times> 's) \<Rightarrow> 's
     \<Rightarrow> 'e error \<times> ('e, 's) Config \<times> 's \<times> 'e event list" where
  "Config_Do ctx config fn s =
     (case Err ctx s of
        Some e \<Rightarrow> (Some e, config, s, [])
      | None \<Rightarrow>
          (let config1 = (if OnRetry config = None
                          then config\<lparr>OnRetry := Some (\<lambda>n s. s)\<rparr> else config);
               config2 = (if OnFailed config1 = None
                          then config1\<lparr>OnFailed := Some (\<lambda>n err s. s)\<rparr> else config1);
               config3 = (if DelayStrategy config2 = None
                          then config2\<lparr>DelayStrategy := Some (\<lambda>n err s. (FixedDelay 0 n err, s))\<rparr>
                          else config2);
               (err, s', tr) =
                 do_loop ctx fn (the (OnRetry config3)) (the (OnFailed config3))
                   (the (DelayStrategy config3)) (RetryTimes config3) 0 s
           in (err, config3, s', tr)))"

definition Do ::
  "('e, 's) Context \<Rightarrow> ('s \<Rightarrow> 'e error \<times> 's) \<Rightarrow> ('e, 's) Option list \<Rightarrow> 's
     \<Rightarrow> 'e error \<times> ('e, 's) Config \<times> 's \<times> 'e event list" where
  "Do ctx fn opts s = Config_Do ctx (NewConfig opts) fn s"

section \<open>Reading a trace\<close>

text \<open>The calls of the operation, of each observer and of the delay strategy, in order.\<close>

primrec fn_calls :: "'e event list \<Rightarrow> (go_int \<times> 'e error) list" where
  "fn_calls [] = []"
| "fn_calls (ev # tr) = (case ev of EvFn n r \<Rightarrow> [(n, r)] | _ \<Rightarrow> []) @ fn_calls tr"

primrec onRetry_calls :: "'e event list \<Rightarrow> go_int list" where
  "onRetry_calls [] = []"
| "onRetry_calls (ev # tr) = (case ev of EvOnRetry n \<Rightarrow> [n] | _ \<Rightarrow> []) @ onRetry_calls tr"

primrec onFailed_calls :: "'e event list \<Rightarrow> (go_int \<times> 'e error) list" where
  "onFailed_calls [] = []"
| "onFailed_calls (ev # tr) =
     (case ev of EvOnFailed n err \<Rightarrow> [(n, err)] | _ \<Rightarrow> []) @ onFailed_calls tr"

primrec delay_calls :: "'e event list \<Rightarrow> (go_int \<times> 'e error) list" where
  "delay_calls [] = []"
| "delay_calls (ev # tr) =
     (case ev of EvDelay n err d \<Rightarrow> [(n, err)] | _ \<Rightarrow> []) @ delay_calls tr"

text \<open>The state in which the operation is called, and the events before that call.\<close>

definition before_fn :: "(go_int \<Rightarrow> 's \<Rightarrow> 's) \<Rightarrow> go_int \<Rightarrow> 's \<Rightarrow> 's" where
  "before_fn onRetry n s = (if 0 <s n then onRetry n s else s)"

definition retry_events :: "go_int \<Rightarrow> 'e event list" where
  "retry_events n = (if 0 <s n then [EvOnRetry n] else [])"

text \<open>The callbacks a run really uses: the configured ones, or the defaults of \<open>Config.Do\<close>.\<close>

definition effective_OnRetry :: "('e, 's) Config \<Rightarrow> go_int \<Rightarrow> 's \<Rightarrow> 's" where
  "effective_OnRetry config = (case OnRetry config of None \<Rightarrow> (\<lambda>n s. s) | Some f \<Rightarrow> f)"

definition effective_OnFailed :: "('e, 's) Config \<Rightarrow> go_int \<Rightarrow> 'e error \<Rightarrow> 's \<Rightarrow> 's" where
  "effective_OnFailed config = (case OnFailed config of None \<Rightarrow> (\<lambda>n err s. s) | Some f \<Rightarrow> f)"

definition effective_DelayStrategy ::
  "('e, 's) Config \<Rightarrow> go_int \<Rightarrow> 'e error \<Rightarrow> 's \<Rightarrow> Duration \<times> 's" where
  "effective_DelayStrategy config =
     (case DelayStrategy config of
        None \<Rightarrow> (\<lambda>n err s. (FixedDelay 0 n err, s))
      | Some f \<Rightarrow> f)"

text \<open>The four components of what \<open>Config_Do\<close> and \<open>Do\<close> return.\<close>

definition result_err :: "'a \<times> 'b \<times> 'c \<times> 'd \<Rightarrow> 'a" where
  "result_err r = fst r"

definition result_config :: "'a \<times> 'b \<times> 'c \<times> 'd \<Rightarrow> 'b" where
  "result_config r = fst (snd r)"

definition result_state :: "'a \<times> 'b \<times> 'c \<times> 'd \<Rightarrow> 'c" where
  "result_state r = fst (snd (snd r))"

definition result_trace :: "'a \<times> 'b \<times> 'c \<times> 'd \<Rightarrow> 'd" where
  "result_trace r = snd (snd (snd r))"

section \<open>The scenarios of retry\_test.go\<close>

text \<open>
  The state of the test scenarios: the time elapsed on the clock, in nanoseconds, and the
  variable \<open>call\<close> captured by \<open>SuccessOnMaxCallFunc\<close>.
\<close>

type_synonym world = "nat \<times> nat"

definition testErr :: "string error" where
  "testErr = Some (Plain ''test'')"

definition SuccessOnMaxCallFunc :: "nat \<Rightarrow> world \<Rightarrow> string error \<times> world" where
  "SuccessOnMaxCallFunc maxCall =
     (\<lambda>(t, call). (if maxCall \<le> call + 1 then None else testErr, (t, call + 1)))"

definition alwaysFails :: "world \<Rightarrow> string error \<times> world" where
  "alwaysFails = (\<lambda>s. (testErr, s))"

definition breaksWith :: "string error \<Rightarrow> world \<Rightarrow> string error \<times> world" where
  "breaksWith err = (\<lambda>(t, call). (Break err, (t, call + 1)))"

definition breaksOnSecondCall :: "world \<Rightarrow> string error \<times> world" where
  "breaksOnSecondCall =
     (\<lambda>(t, call). (if call = 0 then testErr else Break (Some (Plain ''fatal'')), (t, call + 1)))"

text \<open>
  \<open>context.Background()\<close> is never cancelled; a context cancelled before the call reports
  \<open>context.Canceled\<close>; \<open>context.WithTimeout\<close> is done once the clock has reached the
  deadline. A delay that is not positive lets the timer fire at once.
\<close>

definition Background :: "(string, world) Context" where
  "Background =
     \<lparr>Err = (\<lambda>s. None),
      race = (\<lambda>d (t, call). (TimerFired, (t + nat (sint d), call)))\<rparr>"

definition Canceled :: "(string, world) Context" where
  "Canceled = \<lparr>Err = (\<lambda>s. Some (Plain ''context canceled'')), race = (\<lambda>d s. (CtxDone, s))\<rparr>"

definition WithTimeout :: "nat \<Rightarrow> (string, world) Context" where
  "WithTimeout timeout =
     \<lparr>Err = (\<lambda>(t, call).
               if timeout \<le> t then Some (Plain ''context deadline exceeded'') else None),
      race = (\<lambda>d (t, call).
               if t + nat (sint d) < timeout then (TimerFired, (t + nat (sint d), call))
               else (CtxDone, (max t timeout, call)))\<rparr>"

definition fixed :: "Duration \<Rightarrow> go_int \<Rightarrow> string error \<Rightarrow> world \<Rightarrow> Duration \<times> world" where
  "fixed delay = (\<lambda>n err s. (FixedDelay delay n err, s))"

text \<open>The observers of the tests only check their argument; they leave the state as it is.\<close>

definition onRetryFunc :: "go_int \<Rightarrow> world \<Rightarrow> world" where
  "onRetryFunc n = (\<lambda>s. s)"

definition onFailedFunc :: "go_int \<Rightarrow> string error \<Rightarrow> world \<Rightarrow> world" where
  "onFailedFunc n err = (\<lambda>s. s)"

definition calls_made :: "world \<Rightarrow> nat" where
  "calls_made = (\<lambda>(t, call). call)"

section \<open>Operations that count their calls\<close>

text \<open>
  What the operation returns once the type assertion and the unwrapping of \<open>Config.Do\<close>
  have been applied to it.
\<close>

definition unwrap :: "'e error \<Rightarrow> 'e error" where
  "unwrap r = (let (v, breakRetry) = as_breakError r in if breakRetry then v else r)"

text \<open>
  \<open>cnt\<close> reads from the state how often the operation has been invoked: the operation
  adds one, and nothing else in a run changes it.
\<close>

definition counts_calls ::
  "('s \<Rightarrow> nat) \<Rightarrow> ('e, 's) Context \<Rightarrow> ('e, 's) Config \<Rightarrow> ('s \<Rightarrow> 'e error \<times> 's) \<Rightarrow> bool" where
  "counts_calls cnt ctx config fn \<longleftrightarrow>
     (\<forall>s. cnt (snd (fn s)) = Suc (cnt s))
     \<and> (\<forall>n s. cnt (effective_OnRetry config n s) = cnt s)
     \<and> (\<forall>n err s. cnt (effective_OnFailed config n err s) = cnt s)
     \<and> (\<forall>n err s. cnt (snd (effective_DelayStrategy config n err s)) = cnt s)
     \<and> (\<forall>d s. cnt (snd (race ctx d s)) = cnt s)"

text \<open>The operation fails retryably on its first \<open>k - 1\<close> invocations and succeeds on the \<open>k\<close>-th.\<close>

definition succeeds_on_call :: "('s \<Rightarrow> nat) \<Rightarrow> ('s \<Rightarrow> 'e error \<times> 's) \<Rightarrow> nat \<Rightarrow> bool" where
  "succeeds_on_call cnt fn k \<longleftrightarrow>
     (\<forall>s. Suc (cnt s) < k \<longrightarrow> (\<exists>x. fst (fn s) = Some (Plain x)))
     \<and> (\<forall>s. Suc (cnt s) = k \<longrightarrow> fst (fn s) = None)"

section \<open>Signed 64-bit arithmetic\<close>

lemma push_bit_sint: "push_bit k (w :: 64 word) = word_of_int (sint w * 2 ^ k)"
  by (simp add: push_bit_eq_mult)

lemma mult_succ_sint: "(a :: 64 word) * (n + 1) = word_of_int (sint a * (sint n + 1))"
  by simp

lemma sint_in_range:
  "- (2 ^ 63) \<le> x \<Longrightarrow> x < 2 ^ 63 \<Longrightarrow> sint (word_of_int x :: 64 word) = x"
  by (simp add: sint_sbintrunc' signed_take_bit_int_eq_self)

lemma sint_bounds64: "- (2 ^ 63) \<le> sint (w :: 64 word)" "sint (w :: 64 word) < 2 ^ 63"
  using sint_ge [of w] sint_lt [of w] by simp_all

lemma sint_add64:
  "- (2 ^ 63) \<le> sint a + sint b \<Longrightarrow> sint a + sint b < 2 ^ 63
     \<Longrightarrow> sint (a + b :: 64 word) = sint a + sint b"
  using sint_in_range [of "sint a + sint b"] by simp

lemma sint_sub64:
  "- (2 ^ 63) \<le> sint a - sint b \<Longrightarrow> sint a - sint b < 2 ^ 63
     \<Longrightarrow> sint (a - b :: 64 word) = sint a - sint b"
  using sint_in_range [of "sint a - sint b"] by simp

lemma sint_succ: "\<not> b \<le>s n \<Longrightarrow> sint (n + 1 :: 64 word) = sint n + 1"
  using sint_bounds64 [of n] sint_bounds64 [of b] sint_add64 [of n 1]
  by (simp add: word_sle_eq)

lemma clamp_min:
  "0 \<le> sint d \<Longrightarrow>
   sint (if maxDelay <s d \<or> d <s 0 then maxDelay else d) = min (sint d) (sint maxDelay)"
  by (simp add: word_sless_alt)

section \<open>The delay strategies\<close>

text \<open>
  Claim C6, as amended. For every attempt index \<open>n \<ge> 0\<close>, every error and every \<open>max\<close>:
  when \<open>base \<ge> 0\<close> and \<open>base * 2^n\<close> fits in an \<open>int64\<close>, \<open>ExponentialDelay(base, max)\<close>
  returns \<open>min(base * 2^n, max)\<close>; and whenever the 64-bit value \<open>base << n\<close> is negative
  (a negative base, or an overflow into the sign bit), it returns \<open>max\<close>.
\<close>

theorem ExponentialDelay_amended:
  assumes "0 \<le>s n"
  shows "(0 \<le>s baseDelay \<and> sint baseDelay * 2 ^ unat n < 2 ^ 63 \<longrightarrow>
            (\<exists>d. ExponentialDelay baseDelay maxDelay n err = Inr d \<and>
                 sint d = min (sint baseDelay * 2 ^ unat n) (sint maxDelay)))
       \<and> (push_bit (unat n) baseDelay <s 0 \<longrightarrow>
            ExponentialDelay baseDelay maxDelay n err = Inr maxDelay)"
proof (intro conjI impI)
  assume b: "0 \<le>s baseDelay \<and> sint baseDelay * 2 ^ unat n < 2 ^ 63"
  then have nonneg: "0 \<le> sint baseDelay * 2 ^ unat n"
    by (simp add: word_sle_eq)
  have "sint (push_bit (unat n) baseDelay) = sint baseDelay * 2 ^ unat n"
    unfolding push_bit_sint using b nonneg by (intro sint_in_range) simp_all
  then show "\<exists>d. ExponentialDelay baseDelay maxDelay n err = Inr d \<and>
                 sint d = min (sint baseDelay * 2 ^ unat n) (sint maxDelay)"
    using assms nonneg clamp_min [of "push_bit (unat n) baseDelay" maxDelay]
    by (simp add: ExponentialDelay_def Let_def word_sless_alt word_sle_eq)
next
  assume "push_bit (unat n) baseDelay <s 0"
  then show "ExponentialDelay baseDelay maxDelay n err = Inr maxDelay"
    using assms by (simp add: ExponentialDelay_def Let_def word_sless_alt word_sle_eq)
qed

text \<open>
  One second doubled twice and capped at three seconds (in milliseconds); and a base of 3
  shifted by 63, which lands on the sign bit.
\<close>

theorem ExponentialDelay_amended_witness:
  "(\<exists>d. ExponentialDelay 1000 3000 2 (None :: unit error) = Inr d \<and> sint d = 3000)
   \<and> ExponentialDelay 3 10 63 (None :: unit error) = Inr 10"
  using ExponentialDelay_amended [of 2 1000 3000 "None :: unit error"]
        ExponentialDelay_amended [of 63 3 10 "None :: unit error"]
  by (simp add: word_sle_eq word_sless_alt)

text \<open>
  Claim C6 as stated fails for a negative base: \<open>ExponentialDelay(-1, 10)\<close> at \<open>n = 0\<close>
  returns \<open>10\<close>, while \<open>min(-1 * 2^0, 10) = -1\<close>.
\<close>

theorem ExponentialDelay_counterexample:
  "ExponentialDelay (- 1) 10 0 (None :: unit error) = Inr 10
   \<and> sint (10 :: Duration) \<noteq> min (sint (- 1 :: Duration) * 2 ^ unat (0 :: go_int)) (sint (10 :: Duration))"
  by (simp add: ExponentialDelay_def word_sless_alt)

text \<open>
  Outside the amended claim: an overflow that does not reach the sign bit goes unnoticed.
  One second (in nanoseconds) shifted by 55 is 0 in 64 bits, and with a cap of one minute
  the strategy returns 0, not the cap.
\<close>

lemma ExponentialDelay_wraps_to_zero:
  "ExponentialDelay 1000000000 60000000000 55 err = Inr 0"
  by (simp add: ExponentialDelay_def word_sless_alt)

text \<open>
  Claim C7, as amended. For every attempt index \<open>n \<ge> 0\<close>, every error and every \<open>max\<close>:
  when \<open>base \<ge> 0\<close> and \<open>base * (n + 1)\<close> fits in an \<open>int64\<close>, \<open>LinearDelay(base, max)\<close>
  returns \<open>min(base * (n + 1), max)\<close>; and whenever the 64-bit product is negative (a
  negative base, or an overflow into the sign bit), it returns \<open>max\<close>.
\<close>

theorem LinearDelay_amended:
  assumes "0 \<le>s n"
  shows "(0 \<le>s baseDelay \<and> sint baseDelay * (sint n + 1) < 2 ^ 63 \<longrightarrow>
            sint (LinearDelay baseDelay maxDelay n err)
              = min (sint baseDelay * (sint n + 1)) (sint maxDelay))
       \<and> (baseDelay * (n + 1) <s 0 \<longrightarrow> LinearDelay baseDelay maxDelay n err = maxDelay)"
proof (intro conjI impI)
  assume b: "0 \<le>s baseDelay \<and> sint baseDelay * (sint n + 1) < 2 ^ 63"
  with assms have nonneg: "0 \<le> sint baseDelay * (sint n + 1)"
    by (simp add: word_sle_eq)
  have "sint (baseDelay * (n + 1)) = sint baseDelay * (sint n + 1)"
    unfolding mult_succ_sint using b nonneg by (intro sint_in_range) simp_all
  then show "sint (LinearDelay baseDelay maxDelay n err)
              = min (sint baseDelay * (sint n + 1)) (sint maxDelay)"
    using nonneg clamp_min [of "baseDelay * (n + 1)" maxDelay]
    by (simp add: LinearDelay_def Let_def)
next
  assume "baseDelay * (n + 1) <s 0"
  then show "LinearDelay baseDelay maxDelay n err = maxDelay"
    by (simp add: LinearDelay_def Let_def)
qed

text \<open>
  The third delay of the test "linear delay with max" (in milliseconds); and a base of
  \<open>2^62\<close> doubled, which lands on the sign bit.
\<close>

theorem LinearDelay_amended_witness:
  "sint (LinearDelay 1000 2000 2 (None :: unit error)) = 2000
   \<and> LinearDelay 0x4000000000000000 10 1 (None :: unit error) = 10"
  using LinearDelay_amended [of 2 1000 2000 "None :: unit error"]
        LinearDelay_amended [of 1 "0x4000000000000000" 10 "None :: unit error"]
  by (simp add: word_sle_eq word_sless_alt)

text \<open>
  Claim C7 as stated fails for a negative base: \<open>LinearDelay(-1, 10)\<close> at \<open>n = 0\<close> returns
  \<open>10\<close>, while \<open>min(-1 * (0 + 1), 10) = -1\<close>.
\<close>

theorem LinearDelay_counterexample:
  "sint (LinearDelay (- 1) 10 0 (None :: unit error))
     \<noteq> min (sint (- 1 :: Duration) * (sint (0 :: go_int) + 1)) (sint (10 :: Duration))"
  by (simp add: LinearDelay_def word_sless_alt)

text \<open>
  Outside the amended claim: a base of \<open>2^62\<close> times 4 is 0 in 64 bits, and the
  strategy returns 0, not the cap.
\<close>

lemma LinearDelay_wraps_to_zero:
  "LinearDelay 0x4000000000000000 10 3 err = 0"
  by (simp add: LinearDelay_def word_sless_alt)

text \<open>
  Away from the largest range, \<open>RandomDelay\<close> does what is expected of it: with \<open>mn\<close> and
  \<open>mx\<close> the normalised bounds, \<open>0 \<le> mn \<le> mx\<close>, every call returns a duration in
  \<open>[mn, mx]\<close>, and exactly \<open>mn\<close> when the two are equal.
\<close>

lemma RandomDelay_in_range:
  assumes c: "Int63n_contract draw"
    and mn: "mn = (if minDelay <s 0 then 0 else minDelay)"
    and mx: "mx = (if maxDelay <s mn then mn else maxDelay)"
    and ov: "sint mx - sint mn < 2 ^ 63 - 1"
  shows "\<exists>d r'. RandomDelay draw minDelay maxDelay n err r = Inr (d, r') \<and> mn \<le>s d \<and> d \<le>s mx
           \<and> 0 \<le>s mn \<and> mn \<le>s mx \<and> (mn = mx \<longrightarrow> d = mn)"
proof -
  have mn0: "0 \<le> sint mn" using mn by (simp add: word_sless_alt)
  have mnmx: "sint mn \<le> sint mx" using mx by (simp add: word_sless_alt)
  have unfold: "RandomDelay draw minDelay maxDelay n err r =
      (if mn <s mx
       then (case Int63n draw (mx - mn + 1) r of
               Inl p \<Rightarrow> Inl p | Inr (v, r') \<Rightarrow> Inr (mn + v, r'))
       else Inr (mn, r))"
    unfolding mx mn by (simp add: RandomDelay_def Let_def)
  show ?thesis
  proof (cases "mn <s mx")
    case False
    then have "mn = mx" using mnmx by (intro signed_word_eqI) (simp add: word_sless_alt)
    then show ?thesis using mn0 False unfold
      by (simp add: word_sle_eq)
  next
    case True
    have s1: "sint (mx - mn) = sint mx - sint mn"
      using mn0 mnmx sint_bounds64 [of mx] by (intro sint_sub64) simp_all
    have s2: "sint (mx - mn + 1) = sint mx - sint mn + 1"
      using sint_add64 [of "mx - mn" 1] s1 ov mnmx by simp
    then have pos: "0 <s mx - mn + 1" using mnmx by (simp add: word_sless_alt)
    obtain v r' where d: "draw (mx - mn + 1) r = (v, r')" by (cases "draw (mx - mn + 1) r")
    from c pos have "0 \<le>s fst (draw (mx - mn + 1) r) \<and> fst (draw (mx - mn + 1) r) <s mx - mn + 1"
      unfolding Int63n_contract_def by blast
    then have v: "0 \<le> sint v" "sint v < sint mx - sint mn + 1"
      using s2 d by (simp_all add: word_sless_alt word_sle_eq)
    have s3: "sint (mn + v) = sint mn + sint v"
      using v mn0 sint_bounds64 [of mx] by (intro sint_add64) simp_all
    have "RandomDelay draw minDelay maxDelay n err r = Inr (mn + v, r')"
      using True pos d unfold
      by (simp add: Int63n_def word_sle_eq word_sless_alt)
    moreover have "mn \<noteq> mx" using True by (auto simp: word_sless_alt)
    ultimately show ?thesis using s3 v mn0 mnmx
      by (simp add: word_sle_eq)
  qed
qed

text \<open>
  Claim C8 at \<open>RandomDelay(0, math.MaxInt64)\<close>: the bound \<open>maxDelay - minDelay + 1\<close>
  handed to \<open>rand.Int63n\<close> wraps around to \<open>math.MinInt64\<close>, and every call of the
  strategy panics instead of returning a duration between \<open>0\<close> and \<open>math.MaxInt64\<close>.
\<close>

theorem RandomDelay_MaxInt64_panics:
  "RandomDelay draw 0 0x7FFFFFFFFFFFFFFF n err r = Inl InvalidArgumentToInt63n"
  by (simp add: RandomDelay_def Int63n_def word_sless_alt word_sle_eq)

section \<open>The loop, case by case\<close>

declare do_loop.simps [simp del]

lemma fn_calls_append [simp]: "fn_calls (xs @ ys) = fn_calls xs @ fn_calls ys"
  by (induction xs) simp_all

lemma onRetry_calls_append [simp]: "onRetry_calls (xs @ ys) = onRetry_calls xs @ onRetry_calls ys"
  by (induction xs) simp_all

lemma onFailed_calls_append [simp]:
  "onFailed_calls (xs @ ys) = onFailed_calls xs @ onFailed_calls ys"
  by (induction xs) simp_all

lemma delay_calls_append [simp]: "delay_calls (xs @ ys) = delay_calls xs @ delay_calls ys"
  by (induction xs) simp_all

lemma calls_retry_events [simp]:
  "fn_calls (retry_events n) = []"
  "onFailed_calls (retry_events n) = []"
  "delay_calls (retry_events n) = []"
  "onRetry_calls (retry_events n) = (if 0 <s n then [n] else [])"
  by (simp_all add: retry_events_def)

lemma do_loop_unfold:
  "do_loop ctx fn onRetry onFailed delayStrategy retryTimes n s =
     (case fn (before_fn onRetry n s) of
        (None, s2) \<Rightarrow> (None, s2, retry_events n @ [EvFn n None])
      | (Some (BreakError None), s2) \<Rightarrow>
          (None, s2, retry_events n @ [EvFn n (Some (BreakError None))])
      | (Some (BreakError (Some y)), s2) \<Rightarrow>
          (Some y, onFailed n (Some y) s2,
           retry_events n @ [EvFn n (Some (BreakError (Some y))), EvOnFailed n (Some y)])
      | (Some (Plain x), s2) \<Rightarrow>
          (if retryTimes \<le>s n
           then (Some (Plain x), onFailed n (Some (Plain x)) s2,
                 retry_events n @ [EvFn n (Some (Plain x)), EvOnFailed n (Some (Plain x))])
           else (case delayStrategy n (Some (Plain x)) (onFailed n (Some (Plain x)) s2) of
                   (d, s4) \<Rightarrow>
                     (case race ctx d s4 of
                        (CtxDone, s5) \<Rightarrow>
                          (Err ctx s5, s5,
                           retry_events n @ [EvFn n (Some (Plain x)),
                             EvOnFailed n (Some (Plain x)), EvDelay n (Some (Plain x)) d,
                             EvCtxDone])
                      | (TimerFired, s5) \<Rightarrow>
                          (case do_loop ctx fn onRetry onFailed delayStrategy retryTimes
                                  (n + 1) s5 of
                             (err', s', t') \<Rightarrow>
                               (err', s',
                                retry_events n @ [EvFn n (Some (Plain x)),
                                  EvOnFailed n (Some (Plain x)), EvDelay n (Some (Plain x)) d,
                                  EvTimer] @ t'))))))"
  by (subst do_loop.simps)
     (simp add: before_fn_def retry_events_def Let_def
           split: prod.splits option.splits err.splits chosen.splits)

lemma do_loop_run_induct [consumes 1, case_names success terminal exhausted cancelled retried]:
  assumes run: "do_loop ctx fn onRetry onFailed delayStrategy retryTimes n s = (err, s', tr)"
    and success: "\<And>n s r s2.
        fn (before_fn onRetry n s) = (r, s2) \<Longrightarrow> r = None \<or> r = Some (BreakError None)
        \<Longrightarrow> P n s None s2 (retry_events n @ [EvFn n r])"
    and terminal: "\<And>n s y s2.
        fn (before_fn onRetry n s) = (Some (BreakError (Some y)), s2)
        \<Longrightarrow> P n s (Some y) (onFailed n (Some y) s2)
              (retry_events n @ [EvFn n (Some (BreakError (Some y))), EvOnFailed n (Some y)])"
    and exhausted: "\<And>n s x s2.
        fn (before_fn onRetry n s) = (Some (Plain x), s2) \<Longrightarrow> retryTimes \<le>s n
        \<Longrightarrow> P n s (Some (Plain x)) (onFailed n (Some (Plain x)) s2)
              (retry_events n @ [EvFn n (Some (Plain x)), EvOnFailed n (Some (Plain x))])"
    and cancelled: "\<And>n s x s2 d s4 s5.
        fn (before_fn onRetry n s) = (Some (Plain x), s2) \<Longrightarrow> \<not> retryTimes \<le>s n
        \<Longrightarrow> delayStrategy n (Some (Plain x)) (onFailed n (Some (Plain x)) s2) = (d, s4)
        \<Longrightarrow> race ctx d s4 = (CtxDone, s5)
        \<Longrightarrow> P n s (Err ctx s5) s5
              (retry_events n @ [EvFn n (Some (Plain x)), EvOnFailed n (Some (Plain x)),
                 EvDelay n (Some (Plain x)) d, EvCtxDone])"
    and retried: "\<And>n s x s2 d s4 s5 err s' t'.
        fn (before_fn onRetry n s) = (Some (Plain x), s2) \<Longrightarrow> \<not> retryTimes \<le>s n
        \<Longrightarrow> delayStrategy n (Some (Plain x)) (onFailed n (Some (Plain x)) s2) = (d, s4)
        \<Longrightarrow> race ctx d s4 = (TimerFired, s5)
        \<Longrightarrow> do_loop ctx fn onRetry onFailed delayStrategy retryTimes (n + 1) s5 = (err, s', t')
        \<Longrightarrow> P (n + 1) s5 err s' t'
        \<Longrightarrow> P n s err s'
              (retry_events n @ [EvFn n (Some (Plain x)), EvOnFailed n (Some (Plain x)),
                 EvDelay n (Some (Plain x)) d, EvTimer] @ t')"
  shows "P n s err s' tr"
  using run
proof (induction "nat (sint retryTimes - sint n)" arbitrary: n s err s' tr rule: less_induct)
  case less
  obtain r s2 where f: "fn (before_fn onRetry n s) = (r, s2)"
    by (cases "fn (before_fn onRetry n s)")
  show ?case
  proof (cases r)
    case None
    with f less.prems success [of n s r s2] show ?thesis
      by (auto simp: do_loop_unfold [of _ _ _ _ _ _ n])
  next
    case (Some e)
    show ?thesis
    proof (cases e)
      case (BreakError v)
      show ?thesis
      proof (cases v)
        case None
        with f Some BreakError less.prems success [of n s r s2] show ?thesis
          by (auto simp: do_loop_unfold [of _ _ _ _ _ _ n])
      next
        case (Some y)
        with f \<open>r = Some e\<close> BreakError less.prems terminal [of n s y s2] show ?thesis
          by (auto simp: do_loop_unfold [of _ _ _ _ _ _ n])
      qed
    next
      case (Plain x)
      with f Some have fx: "fn (before_fn onRetry n s) = (Some (Plain x), s2)" by simp
      show ?thesis
      proof (cases "retryTimes \<le>s n")
        case True
        with fx less.prems exhausted [of n s x s2] show ?thesis
          by (auto simp: do_loop_unfold [of _ _ _ _ _ _ n])
      next
        case False
        obtain d s4 where
          ds: "delayStrategy n (Some (Plain x)) (onFailed n (Some (Plain x)) s2) = (d, s4)"
          by (cases "delayStrategy n (Some (Plain x)) (onFailed n (Some (Plain x)) s2)")
        obtain c s5 where rc: "race ctx d s4 = (c, s5)" by (cases "race ctx d s4")
        show ?thesis
        proof (cases c)
          case CtxDone
          with fx False ds rc less.prems cancelled [of n s x s2 d s4 s5] show ?thesis
            by (auto simp: do_loop_unfold [of _ _ _ _ _ _ n])
        next
          case TimerFired
          obtain err1 s1 t1 where rec:
            "do_loop ctx fn onRetry onFailed delayStrategy retryTimes (n + 1) s5 = (err1, s1, t1)"
            by (cases "do_loop ctx fn onRetry onFailed delayStrategy retryTimes (n + 1) s5")
          have "nat (sint retryTimes - sint (n + 1)) < nat (sint retryTimes - sint n)"
            using False by (simp add: sint_succ word_sle_eq)
          then have "P (n + 1) s5 err1 s1 t1"
            using rec by (rule less.hyps)
          with fx False ds rc TimerFired rec less.prems
            retried [of n s x s2 d s4 s5 err1 s1 t1] show ?thesis
            by (auto simp: do_loop_unfold [of _ _ _ _ _ _ n])
        qed
      qed
    qed
  qed
qed

lemma Config_Do_cancelled:
  "Err ctx s \<noteq> None \<Longrightarrow> Config_Do ctx config fn s = (Err ctx s, config, s, [])"
  by (auto simp: Config_Do_def)

lemma Config_Do_live:
  assumes "Err ctx s = None"
  shows "Config_Do ctx config fn s =
           (case do_loop ctx fn (effective_OnRetry config) (effective_OnFailed config)
                   (effective_DelayStrategy config) (RetryTimes config) 0 s of
              (err, s', tr) \<Rightarrow>
                (err,
                 config\<lparr>OnRetry := Some (effective_OnRetry config),
                        OnFailed := Some (effective_OnFailed config),
                        DelayStrategy := Some (effective_DelayStrategy config)\<rparr>,
                 s', tr))"
  using assms
  by (cases "OnRetry config"; cases "OnFailed config"; cases "DelayStrategy config")
     (simp_all add: Config_Do_def effective_OnRetry_def effective_OnFailed_def
        effective_DelayStrategy_def Let_def split: prod.splits)

lemma Config_Do_liveE:
  assumes "Config_Do ctx config fn s = (err, config', s', tr)" and "Err ctx s = None"
  shows "do_loop ctx fn (effective_OnRetry config) (effective_OnFailed config)
           (effective_DelayStrategy config) (RetryTimes config) 0 s = (err, s', tr)"
    and "config' = config\<lparr>OnRetry := Some (effective_OnRetry config),
                          OnFailed := Some (effective_OnFailed config),
                          DelayStrategy := Some (effective_DelayStrategy config)\<rparr>"
  using assms by (auto simp: Config_Do_live split: prod.splits)

lemma Do_result:
  "Config_Do ctx (NewConfig opts) fn s =
     (result_err (Do ctx fn opts s), result_config (Do ctx fn opts s),
      result_state (Do ctx fn opts s), result_trace (Do ctx fn opts s))"
  by (simp add: Do_def result_err_def result_config_def result_state_def result_trace_def)

section \<open>Where an event sits in a trace\<close>

lemma no_split: "x \<notin> set A \<Longrightarrow> A = pre @ x # post \<Longrightarrow> False"
  by auto

lemma split_after_prefix:
  "x \<notin> set A \<Longrightarrow> A @ B = pre @ x # post \<Longrightarrow> \<exists>pre'. pre = A @ pre' \<and> B = pre' @ x # post"
proof (induction A arbitrary: pre)
  case Nil
  then show ?case by simp
next
  case (Cons a A)
  then show ?case by (cases pre) auto
qed

lemma split_at_call:
  assumes "A @ a # B = pre @ x # post" and "x \<notin> set A"
  shows "(pre = A \<and> a = x \<and> B = post) \<or> (\<exists>pre'. pre = A @ a # pre' \<and> B = pre' @ x # post)"
proof -
  from split_after_prefix [OF assms(2) assms(1)]
  obtain pre' where p: "pre = A @ pre'" "a # B = pre' @ x # post" by auto
  then show ?thesis by (cases pre') auto
qed

lemma retry_events_set [simp]:
  "EvCtxDone \<notin> set (retry_events n)" "EvFn m r \<notin> set (retry_events n)"
  by (simp_all add: retry_events_def)

section \<open>Properties of the loop\<close>

text \<open>An operation that always fails retryably, in a run that is not cancelled.\<close>

lemma always_failing_run:
  assumes run: "do_loop ctx fn onRetry onFailed delayStrategy b n s = (err, s', tr)"
    and fails: "\<forall>s. \<exists>x. fst (fn s) = Some (Plain x)"
    and nocancel: "EvCtxDone \<notin> set tr"
    and n0: "0 \<le>s n" and nb: "n \<le>s b"
  shows "map fst (fn_calls tr) = map word_of_int [sint n..sint b]
       \<and> onFailed_calls tr = fn_calls tr
       \<and> onRetry_calls tr = (if 0 <s n then [n] else []) @ map word_of_int [sint n + 1..sint b]
       \<and> fn_calls tr \<noteq> [] \<and> err = snd (last (fn_calls tr))"
  using run nocancel n0 nb
proof (induction rule: do_loop_run_induct)
  case (success n s r s2)
  with fails [rule_format, of "before_fn onRetry n s"] show ?case by auto
next
  case (terminal n s y s2)
  with fails [rule_format, of "before_fn onRetry n s"] show ?case by auto
next
  case (exhausted n s x s2)
  then have "n = b" by (intro signed_word_eqI) (simp add: word_sle_eq)
  then show ?case by (simp add: upto.simps)
next
  case (cancelled n s x s2 d s4 s5)
  then show ?case by simp
next
  case (retried n s x s2 d s4 s5 err s' t')
  have sn: "sint (n + 1) = sint n + 1" using retried.hyps(2) by (rule sint_succ)
  have lt: "sint n < sint b" using retried.hyps(2) by (simp add: word_sle_eq)
  have pos: "0 <s n + 1" "0 \<le>s n + 1" "n + 1 \<le>s b"
    using sn lt retried.prems by (simp_all add: word_sle_eq word_sless_alt)
  have nc: "EvCtxDone \<notin> set t'" using retried.prems(1) by simp
  from retried.IH [OF nc pos(2,3)] have IH:
    "map fst (fn_calls t') = map word_of_int [sint n + 1..sint b]"
    "onFailed_calls t' = fn_calls t'"
    "onRetry_calls t' = [n + 1] @ map word_of_int [sint n + 1 + 1..sint b]"
    "fn_calls t' \<noteq> []" "err = snd (last (fn_calls t'))"
    using pos(1) unfolding sn by simp_all
  have up: "[sint n..sint b] = sint n # [sint n + 1..sint b]"
    using lt by (simp_all add: upto_rec1)
  have up2: "map word_of_int [sint n + 1..sint b]
               = (n + 1 :: 64 word) # map word_of_int [2 + sint n..sint b]"
    using lt by (subst upto_rec1) simp_all
  show ?case using IH up up2 by simp
qed

text \<open>The \<open>ctx.Done()\<close> branch of the \<open>select\<close> ends the run.\<close>

lemma cancel_is_last:
  assumes "do_loop ctx fn onRetry onFailed delayStrategy b n s = (err, s', tr)"
    and "tr = pre @ EvCtxDone # post"
  shows "post = [] \<and> err = Err ctx s'"
  using assms
proof (induction arbitrary: pre rule: do_loop_run_induct)
  case (success n s r s2)
  then show ?case using no_split [of EvCtxDone _ pre post] by fastforce
next
  case (terminal n s y s2)
  then show ?case using no_split [of EvCtxDone _ pre post] by fastforce
next
  case (exhausted n s x s2)
  then show ?case using no_split [of EvCtxDone _ pre post] by fastforce
next
  case (cancelled n s x s2 d s4 s5)
  from split_after_prefix [of EvCtxDone
      "retry_events n @ [EvFn n (Some (Plain x)), EvOnFailed n (Some (Plain x)),
         EvDelay n (Some (Plain x)) d]" "[EvCtxDone]" pre post]
  show ?case using cancelled.prems by (auto simp: Cons_eq_append_conv)
next
  case (retried n s x s2 d s4 s5 err s' t')
  from split_after_prefix [of EvCtxDone
      "retry_events n @ [EvFn n (Some (Plain x)), EvOnFailed n (Some (Plain x)),
         EvDelay n (Some (Plain x)) d, EvTimer]" t' pre post]
  obtain pre' where "t' = pre' @ EvCtxDone # post" using retried.prems by auto
  then show ?case by (rule retried.IH)
qed

text \<open>The call during which the counter is \<open>m\<close> is preceded by \<open>m - n\<close> calls of the operation.\<close>

lemma call_index:
  assumes "do_loop ctx fn onRetry onFailed delayStrategy b n s = (err, s', tr)"
    and "tr = pre @ EvFn m r # post"
  shows "sint m = sint n + int (length (fn_calls pre))"
  using assms
proof (induction arbitrary: pre rule: do_loop_run_induct)
  case (success n s r' s2)
  from split_at_call [of "retry_events n" "EvFn n r'" "[]" pre "EvFn m r" post]
  show ?case using success.prems by (auto simp: Cons_eq_append_conv)
next
  case (terminal n s y s2)
  from split_at_call [of "retry_events n" "EvFn n (Some (BreakError (Some y)))"
      "[EvOnFailed n (Some y)]" pre "EvFn m r" post]
  show ?case using terminal.prems by (auto simp: Cons_eq_append_conv)
next
  case (exhausted n s x s2)
  from split_at_call [of "retry_events n" "EvFn n (Some (Plain x))"
      "[EvOnFailed n (Some (Plain x))]" pre "EvFn m r" post]
  show ?case using exhausted.prems by (auto simp: Cons_eq_append_conv)
next
  case (cancelled n s x s2 d s4 s5)
  from split_at_call [of "retry_events n" "EvFn n (Some (Plain x))"
      "[EvOnFailed n (Some (Plain x)), EvDelay n (Some (Plain x)) d, EvCtxDone]"
      pre "EvFn m r" post]
  show ?case using cancelled.prems by (auto simp: Cons_eq_append_conv)
next
  case (retried n s x s2 d s4 s5 err s' t')
  have sn: "sint (n + 1) = sint n + 1" using retried.hyps(2) by (rule sint_succ)
  from split_at_call [of "retry_events n" "EvFn n (Some (Plain x))"
      "[EvOnFailed n (Some (Plain x)), EvDelay n (Some (Plain x)) d, EvTimer] @ t'"
      pre "EvFn m r" post]
  consider "pre = retry_events n" "m = n"
    | pre' where "pre = retry_events n @ EvFn n (Some (Plain x)) # pre'"
        "[EvOnFailed n (Some (Plain x)), EvDelay n (Some (Plain x)) d, EvTimer] @ t'
           = pre' @ EvFn m r # post"
    using retried.prems by auto
  then show ?case
  proof cases
    case 1
    then show ?thesis by simp
  next
    case 2
    from split_after_prefix [of "EvFn m r"
        "[EvOnFailed n (Some (Plain x)), EvDelay n (Some (Plain x)) d, EvTimer]" t' pre' post]
    obtain pre'' where p: "t' = pre'' @ EvFn m r # post"
      "pre' = [EvOnFailed n (Some (Plain x)), EvDelay n (Some (Plain x)) d, EvTimer] @ pre''"
      using 2(2) by auto
    from retried.IH [OF p(1)] show ?thesis using 2(1) p(2) sn by simp
  qed
qed

text \<open>A \<open>breakError\<close> returned by the operation ends the run.\<close>

lemma break_is_final:
  assumes "do_loop ctx fn onRetry onFailed delayStrategy b n s = (err, s', tr)"
    and "tr = pre @ EvFn m (Some (BreakError e)) # post"
  shows "err = e \<and> post = (if e = None then [] else [EvOnFailed m e])"
  using assms
proof (induction arbitrary: pre rule: do_loop_run_induct)
  case (success n s r s2)
  from split_after_prefix [of "EvFn m (Some (BreakError e))" "retry_events n" "[EvFn n r]" pre post]
  show ?case using success by (auto simp: Cons_eq_append_conv)
next
  case (terminal n s y s2)
  from split_after_prefix [of "EvFn m (Some (BreakError e))" "retry_events n"
      "[EvFn n (Some (BreakError (Some y))), EvOnFailed n (Some y)]" pre post]
  show ?case using terminal by (auto simp: Cons_eq_append_conv)
next
  case (exhausted n s x s2)
  from split_after_prefix [of "EvFn m (Some (BreakError e))" "retry_events n"
      "[EvFn n (Some (Plain x)), EvOnFailed n (Some (Plain x))]" pre post]
  show ?case using exhausted by (auto simp: Cons_eq_append_conv)
next
  case (cancelled n s x s2 d s4 s5)
  from split_after_prefix [of "EvFn m (Some (BreakError e))" "retry_events n"
      "[EvFn n (Some (Plain x)), EvOnFailed n (Some (Plain x)),
         EvDelay n (Some (Plain x)) d, EvCtxDone]" pre post]
  show ?case using cancelled by (auto simp: Cons_eq_append_conv)
next
  case (retried n s x s2 d s4 s5 err s' t')
  from split_after_prefix [of "EvFn m (Some (BreakError e))"
      "retry_events n @ [EvFn n (Some (Plain x)), EvOnFailed n (Some (Plain x)),
         EvDelay n (Some (Plain x)) d, EvTimer]" t' pre post]
  obtain pre' where "t' = pre' @ EvFn m (Some (BreakError e)) # post" using retried.prems by auto
  then show ?case by (rule retried.IH)
qed

lemma first_call_breaks:
  assumes "fst (fn s) = Break e"
  shows "do_loop ctx fn onRetry onFailed delayStrategy b 0 s =
           (e, (if e = None then snd (fn s) else onFailed 0 e (snd (fn s))),
            EvFn 0 (Break e) # (if e = None then [] else [EvOnFailed 0 e]))"
  using assms
  by (auto simp: do_loop_unfold [of _ _ _ _ _ _ 0] before_fn_def retry_events_def Break_def
        split: prod.splits option.splits err.splits)

text \<open>With a budget that is not positive the loop body runs once.\<close>

lemma single_attempt:
  assumes "b \<le>s 0"
  shows "do_loop ctx fn onRetry onFailed delayStrategy b 0 s =
           (unwrap (fst (fn s)),
            (if unwrap (fst (fn s)) = None then snd (fn s)
             else onFailed 0 (unwrap (fst (fn s))) (snd (fn s))),
            EvFn 0 (fst (fn s)) #
              (if unwrap (fst (fn s)) = None then []
               else [EvOnFailed 0 (unwrap (fst (fn s)))]))"
proof -
  obtain r s2 where f: "fn s = (r, s2)" by (cases "fn s")
  show ?thesis
  proof (cases r)
    case None
    with f show ?thesis
      by (simp add: do_loop_unfold [of _ _ _ _ _ _ 0] before_fn_def retry_events_def unwrap_def)
  next
    case (Some e)
    show ?thesis
    proof (cases e)
      case (Plain x)
      with f Some assms show ?thesis
        by (simp add: do_loop_unfold [of _ _ _ _ _ _ 0] before_fn_def retry_events_def unwrap_def)
    next
      case (BreakError v)
      with f Some show ?thesis
        by (cases v)
           (simp_all add: do_loop_unfold [of _ _ _ _ _ _ 0] before_fn_def retry_events_def
              unwrap_def)
    qed
  qed
qed

text \<open>
  In a run that is not cancelled the delay strategy is called after every attempt but the
  last, with that attempt's index and error.
\<close>

lemma delays_butlast:
  assumes "do_loop ctx fn onRetry onFailed delayStrategy b n s = (err, s', tr)"
    and "EvCtxDone \<notin> set tr"
  shows "delay_calls tr = butlast (fn_calls tr) \<and> fn_calls tr \<noteq> []"
  using assms
  by (induction rule: do_loop_run_induct) simp_all

lemma no_delay_after_last_call:
  assumes "do_loop ctx fn onRetry onFailed delayStrategy b n s = (err, s', tr)"
    and "EvCtxDone \<notin> set tr"
    and "tr = pre @ EvFn m r # post" and "fn_calls post = []"
  shows "delay_calls post = []"
  using assms
proof (induction arbitrary: pre rule: do_loop_run_induct)
  case (success n s r' s2)
  from split_at_call [of "retry_events n" "EvFn n r'" "[]" pre "EvFn m r" post]
  show ?case using success.prems by (auto simp: Cons_eq_append_conv)
next
  case (terminal n s y s2)
  from split_at_call [of "retry_events n" "EvFn n (Some (BreakError (Some y)))"
      "[EvOnFailed n (Some y)]" pre "EvFn m r" post]
  show ?case using terminal.prems by (auto simp: Cons_eq_append_conv)
next
  case (exhausted n s x s2)
  from split_at_call [of "retry_events n" "EvFn n (Some (Plain x))"
      "[EvOnFailed n (Some (Plain x))]" pre "EvFn m r" post]
  show ?case using exhausted.prems by (auto simp: Cons_eq_append_conv)
next
  case (cancelled n s x s2 d s4 s5)
  from cancelled.prems(1) show ?case by simp
next
  case (retried n s x s2 d s4 s5 err s' t')
  have nc: "EvCtxDone \<notin> set t'" using retried.prems(1) by simp
  have t': "fn_calls t' \<noteq> []"
    using delays_butlast [OF retried.hyps(5) nc] by simp
  from split_at_call [of "retry_events n" "EvFn n (Some (Plain x))"
      "[EvOnFailed n (Some (Plain x)), EvDelay n (Some (Plain x)) d, EvTimer] @ t'"
      pre "EvFn m r" post]
  consider "post = [EvOnFailed n (Some (Plain x)), EvDelay n (Some (Plain x)) d, EvTimer] @ t'"
    | pre' where "[EvOnFailed n (Some (Plain x)), EvDelay n (Some (Plain x)) d, EvTimer] @ t'
                    = pre' @ EvFn m r # post"
    using retried.prems(2) by auto
  then show ?case
  proof cases
    case 1
    with retried.prems(3) t' show ?thesis by simp
  next
    case 2
    from split_after_prefix [of "EvFn m r"
        "[EvOnFailed n (Some (Plain x)), EvDelay n (Some (Plain x)) d, EvTimer]" t' pre' post]
    obtain pre'' where "t' = pre'' @ EvFn m r # post" using 2 by auto
    with nc show ?thesis using retried.prems(3) by (intro retried.IH)
  qed
qed

text \<open>An operation that succeeds on its \<open>k\<close>-th invocation, within the budget.\<close>

lemma scripted_run:
  assumes "do_loop ctx fn onRetry onFailed delayStrategy b n s = (err, s', tr)"
    and "EvCtxDone \<notin> set tr"
    and inc: "\<forall>s. cnt (snd (fn s)) = Suc (cnt s)"
    and keep: "\<forall>n s. cnt (onRetry n s) = cnt s" "\<forall>n err s. cnt (onFailed n err s) = cnt s"
      "\<forall>n err s. cnt (snd (delayStrategy n err s)) = cnt s" "\<forall>d s. cnt (snd (race ctx d s)) = cnt s"
    and script: "succeeds_on_call cnt fn k"
    and kb: "int k \<le> sint b + 1"
    and "int (cnt s) = sint n" and "sint n < int k"
  shows "err = None \<and> map fst (fn_calls tr) = map word_of_int [sint n..int k - 1]"
  using assms(1,2,10,11)
proof (induction rule: do_loop_run_induct)
  case (success n s r s2)
  have c: "cnt (before_fn onRetry n s) = cnt s" using keep(1) by (simp add: before_fn_def)
  have "\<not> Suc (cnt s) < k"
    using script success.hyps c unfolding succeeds_on_call_def
    by (metis err.distinct(1) fst_conv option.distinct(1) option.inject)
  with success.prems have "int k - 1 = sint n" by linarith
  then show ?case by (simp add: upto.simps)
next
  case (terminal n s y s2)
  have c: "cnt (before_fn onRetry n s) = cnt s" using keep(1) by (simp add: before_fn_def)
  have "Suc (cnt s) < k \<or> Suc (cnt s) = k" using terminal.prems by linarith
  then show ?case
    using script terminal.hyps c unfolding succeeds_on_call_def
    by (metis err.distinct(1) fst_conv option.distinct(1) option.inject)
next
  case (exhausted n s x s2)
  have c: "cnt (before_fn onRetry n s) = cnt s" using keep(1) by (simp add: before_fn_def)
  have "Suc (cnt s) \<noteq> k"
    using script exhausted.hyps c unfolding succeeds_on_call_def
    by (metis fst_conv option.distinct(1))
  with exhausted.prems kb exhausted.hyps(2) show ?case
    by (simp add: word_sle_eq)
next
  case (cancelled n s x s2 d s4 s5)
  then show ?case by simp
next
  case (retried n s x s2 d s4 s5 err s' t')
  have c: "cnt (before_fn onRetry n s) = cnt s" using keep(1) by (simp add: before_fn_def)
  have ne: "Suc (cnt s) \<noteq> k"
    using script retried.hyps c unfolding succeeds_on_call_def
    by (metis fst_conv option.distinct(1))
  have sn: "sint (n + 1) = sint n + 1" using retried.hyps(2) by (rule sint_succ)
  have "cnt s2 = Suc (cnt s)"
    using inc [rule_format, of "before_fn onRetry n s"] retried.hyps(1) c by simp
  moreover have "cnt s4 = cnt (onFailed n (Some (Plain x)) s2)"
    using keep(3) [rule_format, of n "Some (Plain x)" "onFailed n (Some (Plain x)) s2"]
      retried.hyps(3) by simp
  moreover have "cnt s5 = cnt s4"
    using keep(4) [rule_format, of d s4] retried.hyps(4) by simp
  ultimately have c5: "int (cnt s5) = sint (n + 1)"
    using keep(2) retried.prems(2) sn by simp
  have lt: "sint (n + 1) < int k" using ne retried.prems sn by linarith
  have nc: "EvCtxDone \<notin> set t'" using retried.prems(1) by simp
  from retried.IH [OF nc c5 lt] have IH:
    "err = None" "map fst (fn_calls t') = map word_of_int [sint n + 1..int k - 1]"
    unfolding sn by simp_all
  have "[sint n..int k - 1] = sint n # [sint n + 1..int k - 1]"
    using lt sn by (simp add: upto_rec1)
  then show ?case using IH by simp
qed


section \<open>Runs of \<open>Do\<close>\<close>

text \<open>
  Claim C1, as amended. For every retry budget \<open>b \<ge> 0\<close> and an operation that fails
  retryably on every call, in a run that is not cancelled (the context is not done when
  \<open>Do\<close> starts, and no wait ends on \<open>ctx.Done()\<close>): \<open>Do\<close> invokes the operation exactly
  \<open>b + 1\<close> times, as attempts \<open>0..b\<close>; it invokes \<open>onFailed\<close> once after each of them,
  with that attempt's index and error, so \<open>b + 1\<close> times with \<open>n = 0..b\<close> in order; it
  invokes \<open>onRetry\<close> exactly \<open>b\<close> times with \<open>n = 1..b\<close> in order; and it returns the
  last attempt's error as it is.
\<close>

theorem Do_always_failing:
  assumes "Config_Do ctx config fn s = (err, config', s', tr)"
    and "0 \<le>s RetryTimes config"
    and "\<forall>s. \<exists>x. fst (fn s) = Some (Plain x)"
    and "Err ctx s = None"
    and "EvCtxDone \<notin> set tr"
  shows "map fst (fn_calls tr) = map word_of_int [0..sint (RetryTimes config)]
       \<and> int (length (fn_calls tr)) = sint (RetryTimes config) + 1
       \<and> onFailed_calls tr = fn_calls tr
       \<and> onRetry_calls tr = map word_of_int [1..sint (RetryTimes config)]
       \<and> err = snd (last (fn_calls tr))"
proof -
  have run: "do_loop ctx fn (effective_OnRetry config) (effective_OnFailed config)
           (effective_DelayStrategy config) (RetryTimes config) 0 s = (err, s', tr)"
    using assms(1,4) by (rule Config_Do_liveE)
  have b: "0 \<le> sint (RetryTimes config)" using assms(2) by (simp add: word_sle_eq)
  have main: "map fst (fn_calls tr) = map word_of_int [0..sint (RetryTimes config)]
       \<and> onFailed_calls tr = fn_calls tr
       \<and> onRetry_calls tr = map word_of_int [1..sint (RetryTimes config)]
       \<and> fn_calls tr \<noteq> [] \<and> err = snd (last (fn_calls tr))"
    using always_failing_run [OF run assms(3,5) _ assms(2)] by simp
  then have "length (map fst (fn_calls tr))
      = length (map (word_of_int :: int \<Rightarrow> go_int) [0..sint (RetryTimes config)])"
    by simp
  then have "int (length (fn_calls tr)) = sint (RetryTimes config) + 1"
    using b by simp
  with main show ?thesis by simp
qed

text \<open>The test "all failed", with a budget of 2.\<close>

theorem Do_always_failing_witness:
  "map fst (fn_calls (result_trace (Do Background alwaysFails [WithTimes 2] (0, 0)))) = [0, 1, 2]
   \<and> onFailed_calls (result_trace (Do Background alwaysFails [WithTimes 2] (0, 0)))
       = [(0, testErr), (1, testErr), (2, testErr)]
   \<and> onRetry_calls (result_trace (Do Background alwaysFails [WithTimes 2] (0, 0))) = [1, 2]
   \<and> result_err (Do Background alwaysFails [WithTimes 2] (0, 0)) = testErr"
proof -
  let ?r = "Do Background alwaysFails [WithTimes 2] (0, 0)"
  have h: "0 \<le>s RetryTimes (NewConfig [WithTimes 2] :: (string, world) Config)"
    "\<forall>s. \<exists>x. fst (alwaysFails s) = Some (Plain x)"
    "Err Background (0, 0) = None"
    by (simp_all add: NewConfig_def WithTimes_def alwaysFails_def testErr_def Background_def
          word_sle_eq)
  have nc: "EvCtxDone \<notin> set (result_trace ?r)"
    by code_simp
  have calls: "fn_calls (result_trace ?r) = [(0, testErr), (1, testErr), (2, testErr)]"
    by code_simp
  have up: "[0..sint (RetryTimes (NewConfig [WithTimes 2] :: (string, world) Config))] = [0, 1, 2]"
    "[1..sint (RetryTimes (NewConfig [WithTimes 2] :: (string, world) Config))] = [1, 2]"
    by (simp_all add: NewConfig_def WithTimes_def upto.simps)
  show ?thesis
    using Do_always_failing [OF Do_result [of Background "[WithTimes 2]" alwaysFails "(0, 0)"] h nc]
      calls
    unfolding up by simp
qed

text \<open>
  Claim C1 as stated fails when the context is already cancelled: with a budget of 2 the
  operation is not invoked \<open>2 + 1\<close> times but never, and the error returned is the
  context's, not the operation's.
\<close>

theorem Do_always_failing_counterexample:
  "length (fn_calls (result_trace (Do Canceled alwaysFails [WithTimes 2] (0, 0)))) \<noteq> 2 + 1
   \<and> result_err (Do Canceled alwaysFails [WithTimes 2] (0, 0)) \<noteq> testErr"
  by (simp add: Do_def Config_Do_def Canceled_def result_trace_def result_err_def testErr_def)

text \<open>
  Claim C2, as amended. \<open>Do\<close> never changes \<open>RetryTimes\<close>, and it never changes an
  \<open>OnRetry\<close>, \<open>OnFailed\<close> or \<open>DelayStrategy\<close> that is not nil when it is called; when the
  context is already cancelled it changes nothing at all. Otherwise it stores a default
  in every field that is nil (an observer that does nothing, \<open>FixedDelay(0)\<close>), and the
  caller's \<open>Config\<close> keeps it. So a \<open>Config\<close> whose three callbacks are set is the same
  after \<open>Do\<close> as before and can be used again.
\<close>

theorem Do_config_frame:
  assumes "Config_Do ctx config fn s = (err, config', s', tr)"
  shows "RetryTimes config' = RetryTimes config
       \<and> (OnRetry config \<noteq> None \<longrightarrow> OnRetry config' = OnRetry config)
       \<and> (OnFailed config \<noteq> None \<longrightarrow> OnFailed config' = OnFailed config)
       \<and> (DelayStrategy config \<noteq> None \<longrightarrow> DelayStrategy config' = DelayStrategy config)
       \<and> (Err ctx s \<noteq> None \<longrightarrow> config' = config)
       \<and> (Err ctx s = None \<longrightarrow>
            OnRetry config' = Some (effective_OnRetry config)
          \<and> OnFailed config' = Some (effective_OnFailed config)
          \<and> DelayStrategy config' = Some (effective_DelayStrategy config))"
proof (cases "Err ctx s")
  case None
  have "config' = config\<lparr>OnRetry := Some (effective_OnRetry config),
                          OnFailed := Some (effective_OnFailed config),
                          DelayStrategy := Some (effective_DelayStrategy config)\<rparr>"
    using assms None by (rule Config_Do_liveE)
  then show ?thesis using None
    by (auto simp: effective_OnRetry_def effective_OnFailed_def effective_DelayStrategy_def)
next
  case (Some c)
  then have "config' = config" using assms by (simp add: Config_Do_def)
  with Some show ?thesis by simp
qed

text \<open>
  A configuration with all three callbacks set comes back as it was; so does any
  configuration when the context is cancelled; and a nil \<open>OnRetry\<close> comes back as the
  default observer.
\<close>

theorem Do_config_frame_witness:
  "result_config (Do Background alwaysFails
      [WithTimes 3, WithOnRetryFunc (Some onRetryFunc), WithOnFailedFunc (Some onFailedFunc),
       WithDelayStrategy (Some (fixed 1))] (0, 0))
   = NewConfig [WithTimes 3, WithOnRetryFunc (Some onRetryFunc),
       WithOnFailedFunc (Some onFailedFunc), WithDelayStrategy (Some (fixed 1))]
   \<and> result_config (Do Canceled alwaysFails [] (0, 0)) = NewConfig []
   \<and> OnRetry (result_config (Do Background alwaysFails [] (0, 0)))
       = Some (effective_OnRetry (NewConfig [] :: (string, world) Config))"
proof -
  let ?opts = "[WithTimes 3, WithOnRetryFunc (Some onRetryFunc),
       WithOnFailedFunc (Some onFailedFunc), WithDelayStrategy (Some (fixed 1))]
       :: (string, world) Option list"
  have c: "NewConfig ?opts = \<lparr>RetryTimes = 3, OnRetry = Some onRetryFunc,
       OnFailed = Some onFailedFunc, DelayStrategy = Some (fixed 1)\<rparr>"
    by (simp add: NewConfig_def WithTimes_def WithOnRetryFunc_def WithOnFailedFunc_def
          WithDelayStrategy_def)
  have "result_config (Do Background alwaysFails ?opts (0, 0)) = NewConfig ?opts"
    using Do_config_frame [OF Do_result [of Background ?opts alwaysFails "(0, 0)"]]
    unfolding c by (intro Config.equality) simp_all
  moreover have "result_config (Do Canceled alwaysFails [] (0, 0)) = NewConfig []"
    using Do_config_frame [OF Do_result [of Canceled "[]" alwaysFails "(0, 0)"]]
    by (simp add: Canceled_def)
  moreover have "Err Background (0, 0) = None"
    by (simp add: Background_def)
  then have "OnRetry (result_config (Do Background alwaysFails [] (0, 0)))
       = Some (effective_OnRetry (NewConfig [] :: (string, world) Config))"
    using Do_config_frame [OF Do_result [of Background "[]" alwaysFails "(0, 0)"]]
    by simp
  ultimately show ?thesis by simp
qed

text \<open>
  Claim C2 as stated fails for the configuration of the test "default", built from no
  options: its \<open>OnRetry\<close> is nil before \<open>Do\<close> and is not nil after it.
\<close>

theorem Do_config_frame_counterexample:
  "OnRetry (result_config (Do Background alwaysFails [] (0, 0)))
     \<noteq> OnRetry (NewConfig [] :: (string, world) Config)"
  by (simp add: Do_def Config_Do_live Background_def NewConfig_def result_config_def
        split: prod.splits)

text \<open>
  Claim C3. If the operation returns \<open>Break(e)\<close> on attempt \<open>m\<close> (the call made while the
  counter is \<open>m\<close>, which \<open>m\<close> calls precede), then nothing follows that call but
  \<open>onFailed(m, e)\<close>, and that only when \<open>e\<close> is not nil: no further attempt whatever the
  budget, no call of the delay strategy, no wait; and \<open>Do\<close> returns \<open>e\<close>, nil included.
  In particular, when the first call of the operation returns \<open>Break(e)\<close>, the run is
  that one call, followed by \<open>onFailed(0, e)\<close> when \<open>e\<close> is not nil.
\<close>

theorem Do_Break:
  assumes "Config_Do ctx config fn s = (err, config', s', tr)"
  shows "(tr = pre @ EvFn m (Break e) # post \<longrightarrow>
            err = e \<and> post = (if e = None then [] else [EvOnFailed m e])
          \<and> sint m = int (length (fn_calls pre)))
       \<and> (Err ctx s = None \<and> fst (fn s) = Break e0 \<longrightarrow>
            err = e0 \<and> tr = EvFn 0 (Break e0) # (if e0 = None then [] else [EvOnFailed 0 e0]))"
proof (cases "Err ctx s")
  case None
  have run: "do_loop ctx fn (effective_OnRetry config) (effective_OnFailed config)
           (effective_DelayStrategy config) (RetryTimes config) 0 s = (err, s', tr)"
    using assms None by (rule Config_Do_liveE)
  have "tr = pre @ EvFn m (Break e) # post \<longrightarrow>
            err = e \<and> post = (if e = None then [] else [EvOnFailed m e])
          \<and> sint m = int (length (fn_calls pre))"
    using break_is_final [OF run] call_index [OF run] by (simp add: Break_def)
  moreover have "fst (fn s) = Break e0 \<longrightarrow>
            err = e0 \<and> tr = EvFn 0 (Break e0) # (if e0 = None then [] else [EvOnFailed 0 e0])"
    using run first_call_breaks [of fn s e0] by auto
  ultimately show ?thesis by simp
next
  case (Some c)
  then have "tr = []" using assms by (simp add: Config_Do_def)
  with Some show ?thesis by simp
qed

text \<open>
  An operation that fails once and then returns \<open>Break\<close> of an error, with a budget of 5;
  and the test "break with nil", with a budget of 10.
\<close>

theorem Do_Break_witness:
  "result_err (Do Background breaksOnSecondCall [WithTimes 5] (0, 0)) = Some (Plain ''fatal'')
   \<and> result_err (Do Background (breaksWith None) [WithTimes 10] (0, 0)) = None
   \<and> result_trace (Do Background (breaksWith None) [WithTimes 10] (0, 0)) = [EvFn 0 (Break None)]"
proof -
  let ?r1 = "Do Background breaksOnSecondCall [WithTimes 5] (0, 0)"
  have tr: "result_trace ?r1 =
      [EvFn 0 testErr, EvOnFailed 0 testErr, EvDelay 0 testErr 0, EvTimer, EvOnRetry 1]
      @ EvFn 1 (Break (Some (Plain ''fatal''))) # [EvOnFailed 1 (Some (Plain ''fatal''))]"
    by code_simp
  have h2: "Err Background (0, 0) = None \<and> fst (breaksWith None (0, 0)) = Break None"
    by (simp add: Background_def breaksWith_def)
  show ?thesis
    using Do_Break [OF Do_result [of Background "[WithTimes 5]" breaksOnSecondCall "(0, 0)"],
        where pre = "[EvFn 0 testErr, EvOnFailed 0 testErr, EvDelay 0 testErr 0, EvTimer,
                      EvOnRetry 1]"
          and m = 1 and e = "Some (Plain ''fatal'')"
          and post = "[EvOnFailed 1 (Some (Plain ''fatal''))]"] tr
      Do_Break [OF Do_result [of Background "[WithTimes 10]" "breaksWith None" "(0, 0)"],
        where ?e0.0 = None] h2
    by simp
qed

text \<open>
  Claim C4. If a wait between attempts ends on \<open>ctx.Done()\<close>, the run ends there: the
  operation is not invoked again, and \<open>Do\<close> returns \<open>ctx.Err()\<close>, whatever the error of
  the attempt before.
\<close>

theorem Do_cancelled_during_wait:
  assumes "Config_Do ctx config fn s = (err, config', s', tr)"
    and "tr = pre @ EvCtxDone # post"
  shows "post = [] \<and> err = Err ctx s'"
proof (cases "Err ctx s")
  case None
  have "do_loop ctx fn (effective_OnRetry config) (effective_OnFailed config)
           (effective_DelayStrategy config) (RetryTimes config) 0 s = (err, s', tr)"
    using assms(1) None by (rule Config_Do_liveE)
  then show ?thesis using assms(2) by (rule cancel_is_last)
next
  case (Some c)
  then have "tr = []" using assms(1) by (simp add: Config_Do_def)
  with assms(2) show ?thesis by simp
qed

text \<open>
  The test "timeout context", with a deadline of 5 and a fixed delay of 3: the second
  wait runs into the deadline.
\<close>

theorem Do_cancelled_during_wait_witness:
  "result_err (Do (WithTimeout 5) (SuccessOnMaxCallFunc 4)
                 [WithTimes 5, WithDelayStrategy (Some (fixed 3))] (0, 0))
     = Some (Plain ''context deadline exceeded'')"
proof -
  let ?r = "Do (WithTimeout 5) (SuccessOnMaxCallFunc 4)
              [WithTimes 5, WithDelayStrategy (Some (fixed 3))] (0, 0)"
  have tr: "result_trace ?r =
      [EvFn 0 testErr, EvOnFailed 0 testErr, EvDelay 0 testErr 3, EvTimer, EvOnRetry 1,
       EvFn 1 testErr, EvOnFailed 1 testErr, EvDelay 1 testErr 3] @ EvCtxDone # []"
    by code_simp
  have st: "result_state ?r = (5, 2)"
    by code_simp
  from Do_cancelled_during_wait [OF Do_result tr]
  have "result_err ?r = Err (WithTimeout 5) (result_state ?r)" by simp
  then show ?thesis unfolding st by (simp add: WithTimeout_def)
qed

text \<open>
  Claim C5. If the context is already cancelled when \<open>Do\<close> starts, then the operation is
  not invoked, no observer and no delay strategy is invoked (the trace is empty), the
  state and the configuration are untouched, and \<open>Do\<close> returns \<open>ctx.Err()\<close>.
\<close>

theorem Do_already_cancelled:
  assumes "Err ctx s \<noteq> None"
  shows "Config_Do ctx config fn s = (Err ctx s, config, s, [])"
  using assms by (auto simp: Config_Do_def)

text \<open>The test "canceled context".\<close>

theorem Do_already_cancelled_witness:
  "Config_Do Canceled (NewConfig [WithTimes 5]) (SuccessOnMaxCallFunc 0) (0, 0)
     = (Some (Plain ''context canceled''), NewConfig [WithTimes 5], (0, 0), [])"
  using Do_already_cancelled [of Canceled "(0, 0)" "NewConfig [WithTimes 5]" "SuccessOnMaxCallFunc 0"]
  by (simp add: Canceled_def)

text \<open>
  Claim C9. In a run that is not cancelled, the delay strategy is called after every
  attempt but the last, with that attempt's index and error, and nothing is asked of it
  after the last call of the operation, however the run ends. For an operation that
  succeeds on its \<open>k\<close>-th invocation, \<open>k \<le> b + 1\<close>, the run makes the attempts
  \<open>0..k-1\<close> and returns nil, and the delay strategy is called exactly for \<open>n = 0..k-2\<close>.
\<close>

theorem Do_delay_calls:
  assumes "Config_Do ctx config fn s = (err, config', s', tr)"
    and "Err ctx s = None"
    and "EvCtxDone \<notin> set tr"
  shows "delay_calls tr = butlast (fn_calls tr)
       \<and> (tr = pre @ EvFn m r # post \<and> fn_calls post = [] \<longrightarrow> delay_calls post = [])
       \<and> (counts_calls cnt ctx config fn \<and> succeeds_on_call cnt fn k \<and> cnt s = 0
            \<and> 0 < k \<and> int k \<le> sint (RetryTimes config) + 1 \<longrightarrow>
            err = None
          \<and> map fst (fn_calls tr) = map word_of_int [0..int k - 1]
          \<and> map fst (delay_calls tr) = map word_of_int [0..int k - 2])"
proof -
  have run: "do_loop ctx fn (effective_OnRetry config) (effective_OnFailed config)
           (effective_DelayStrategy config) (RetryTimes config) 0 s = (err, s', tr)"
    using assms(1,2) by (rule Config_Do_liveE)
  have A: "delay_calls tr = butlast (fn_calls tr)"
    using delays_butlast [OF run assms(3)] by simp
  have B: "tr = pre @ EvFn m r # post \<and> fn_calls post = [] \<longrightarrow> delay_calls post = []"
    using no_delay_after_last_call [OF run assms(3)] by blast
  have C: "err = None \<and> map fst (fn_calls tr) = map word_of_int [0..int k - 1]
          \<and> map fst (delay_calls tr) = map word_of_int [0..int k - 2]"
    if h: "counts_calls cnt ctx config fn" "succeeds_on_call cnt fn k" "cnt s = 0"
      "0 < k" "int k \<le> sint (RetryTimes config) + 1"
  proof -
    have sc: "err = None \<and> map fst (fn_calls tr) = map word_of_int [sint (0 :: go_int)..int k - 1]"
      using h(1) unfolding counts_calls_def
      by (intro scripted_run [OF run assms(3) _ _ _ _ _ h(2) h(5)]) (use h(3,4) in simp_all)
    have up: "[0..int k - 1] = [0..int k - 2] @ [int k - 1]"
      using h(4) upto_rec2 [of 0 "int k - 1"] by simp
    have "map fst (delay_calls tr) = butlast (map fst (fn_calls tr))"
      using A by (simp add: map_butlast)
    with sc up show ?thesis by simp
  qed
  from A B C show ?thesis by blast
qed

text \<open>
  \<open>SuccessOnMaxCallFunc(3)\<close> with a budget of 5 and a fixed delay: three attempts, and a
  delay after the first and after the second.
\<close>

theorem Do_delay_calls_witness:
  "result_err (Do Background (SuccessOnMaxCallFunc 3)
                 [WithTimes 5, WithDelayStrategy (Some (fixed 1000))] (0, 0)) = None
   \<and> map fst (fn_calls (result_trace (Do Background (SuccessOnMaxCallFunc 3)
                 [WithTimes 5, WithDelayStrategy (Some (fixed 1000))] (0, 0)))) = [0, 1, 2]
   \<and> map fst (delay_calls (result_trace (Do Background (SuccessOnMaxCallFunc 3)
                 [WithTimes 5, WithDelayStrategy (Some (fixed 1000))] (0, 0)))) = [0, 1]
   \<and> delay_calls (result_trace (Do Background (SuccessOnMaxCallFunc 3)
                 [WithTimes 5, WithDelayStrategy (Some (fixed 1000))] (0, 0)))
       = butlast (fn_calls (result_trace (Do Background (SuccessOnMaxCallFunc 3)
                 [WithTimes 5, WithDelayStrategy (Some (fixed 1000))] (0, 0))))"
proof -
  let ?opts = "[WithTimes 5, WithDelayStrategy (Some (fixed 1000))] :: (string, world) Option list"
  let ?r = "Do Background (SuccessOnMaxCallFunc 3) ?opts (0, 0)"
  have c: "NewConfig ?opts = \<lparr>RetryTimes = 5, OnRetry = None, OnFailed = None,
             DelayStrategy = Some (fixed 1000)\<rparr>"
    by (simp add: NewConfig_def WithTimes_def WithDelayStrategy_def)
  have live: "Err Background (0, 0) = None"
    by (simp add: Background_def)
  have cc: "counts_calls calls_made Background (NewConfig ?opts) (SuccessOnMaxCallFunc 3)"
    unfolding c
    by (simp add: counts_calls_def calls_made_def SuccessOnMaxCallFunc_def Background_def
          effective_OnRetry_def effective_OnFailed_def effective_DelayStrategy_def fixed_def
          split: prod.splits)
  have sc: "succeeds_on_call calls_made (SuccessOnMaxCallFunc 3) 3"
    by (simp add: succeeds_on_call_def calls_made_def SuccessOnMaxCallFunc_def testErr_def
          split: prod.splits)
  have k: "calls_made (0, 0) = 0" "0 < (3 :: nat)" "int 3 \<le> sint (RetryTimes (NewConfig ?opts)) + 1"
    unfolding c by (simp_all add: calls_made_def)
  have tr: "result_trace ?r =
      [EvFn 0 testErr, EvOnFailed 0 testErr, EvDelay 0 testErr 1000, EvTimer, EvOnRetry 1,
       EvFn 1 testErr, EvOnFailed 1 testErr, EvDelay 1 testErr 1000, EvTimer, EvOnRetry 2]
      @ EvFn 2 None # []"
    by code_simp
  have nc: "EvCtxDone \<notin> set (result_trace ?r)"
    unfolding tr by simp
  have up: "[0..int 3 - 1] = [0, 1, 2]" "[0..int 3 - 2] = [0, 1]"
    by (simp_all add: upto.simps)
  show ?thesis
    using Do_delay_calls [OF Do_result [of Background ?opts "SuccessOnMaxCallFunc 3" "(0, 0)"]
        live nc,
        where m = 2 and r = None and post = "[]" and cnt = calls_made and k = 3
          and pre = "[EvFn 0 testErr, EvOnFailed 0 testErr, EvDelay 0 testErr 1000, EvTimer,
                      EvOnRetry 1, EvFn 1 testErr, EvOnFailed 1 testErr, EvDelay 1 testErr 1000,
                      EvTimer, EvOnRetry 2]"] tr cc sc k
    unfolding up by simp
qed

text \<open>
  Claim C10, as amended. For every negative \<open>RetryTimes\<close>, \<open>Do\<close> behaves exactly as with
  a budget of 0: same error returned, same calls in the same order, same final state.
  When the context is not already cancelled, the operation is invoked exactly once,
  \<open>onRetry\<close> and the delay strategy are never invoked, and the error of that one attempt
  (unwrapped if it is a \<open>breakError\<close>; nil on success) is returned.
\<close>

theorem Do_negative_budget:
  assumes "RetryTimes config <s 0"
    and "Config_Do ctx config fn s = (err, config', s', tr)"
  shows "Config_Do ctx (config\<lparr>RetryTimes := 0\<rparr>) fn s = (err, config'\<lparr>RetryTimes := 0\<rparr>, s', tr)
       \<and> (Err ctx s = None \<longrightarrow>
            fn_calls tr = [(0, fst (fn s))] \<and> onRetry_calls tr = [] \<and> delay_calls tr = []
          \<and> err = unwrap (fst (fn s)))"
proof (cases "Err ctx s")
  case None
  have b: "RetryTimes config \<le>s 0" using assms(1) by (simp add: word_sle_eq word_sless_alt)
  have run: "do_loop ctx fn (effective_OnRetry config) (effective_OnFailed config)
           (effective_DelayStrategy config) (RetryTimes config) 0 s = (err, s', tr)"
    and c: "config' = config\<lparr>OnRetry := Some (effective_OnRetry config),
                          OnFailed := Some (effective_OnFailed config),
                          DelayStrategy := Some (effective_DelayStrategy config)\<rparr>"
    using assms(2) None by (rule Config_Do_liveE)+
  have eff: "effective_OnRetry (config\<lparr>RetryTimes := 0\<rparr>) = effective_OnRetry config"
    "effective_OnFailed (config\<lparr>RetryTimes := 0\<rparr>) = effective_OnFailed config"
    "effective_DelayStrategy (config\<lparr>RetryTimes := 0\<rparr>) = effective_DelayStrategy config"
    by (simp_all add: effective_OnRetry_def effective_OnFailed_def effective_DelayStrategy_def)
  have "do_loop ctx fn (effective_OnRetry config) (effective_OnFailed config)
           (effective_DelayStrategy config) 0 0 s
        = do_loop ctx fn (effective_OnRetry config) (effective_OnFailed config)
           (effective_DelayStrategy config) (RetryTimes config) 0 s"
    by (simp add: single_attempt [OF b] single_attempt [of 0])
  with run have same: "do_loop ctx fn (effective_OnRetry config) (effective_OnFailed config)
           (effective_DelayStrategy config) 0 0 s = (err, s', tr)"
    by simp
  have "Config_Do ctx (config\<lparr>RetryTimes := 0\<rparr>) fn s = (err, config'\<lparr>RetryTimes := 0\<rparr>, s', tr)"
    using None same c by (simp add: Config_Do_live eff)
  moreover have "fn_calls tr = [(0, fst (fn s))] \<and> onRetry_calls tr = [] \<and> delay_calls tr = []
          \<and> err = unwrap (fst (fn s))"
    using run unfolding single_attempt [OF b] by auto
  ultimately show ?thesis by simp
next
  case (Some c)
  then have ne: "Err ctx s \<noteq> None" by simp
  show ?thesis
    using assms(2) ne
    unfolding Config_Do_cancelled [OF ne, of config]
      Config_Do_cancelled [OF ne, of "config\<lparr>RetryTimes := 0\<rparr>"]
    by auto
qed

text \<open>The test "all failed" with \<open>WithTimes(-3)\<close>: one attempt, as with \<open>WithTimes(0)\<close>.\<close>

theorem Do_negative_budget_witness:
  "fn_calls (result_trace (Do Background alwaysFails [WithTimes (- 3)] (0, 0))) = [(0, testErr)]
   \<and> onRetry_calls (result_trace (Do Background alwaysFails [WithTimes (- 3)] (0, 0))) = []
   \<and> delay_calls (result_trace (Do Background alwaysFails [WithTimes (- 3)] (0, 0))) = []
   \<and> result_err (Do Background alwaysFails [WithTimes (- 3)] (0, 0)) = testErr
   \<and> Do Background alwaysFails [WithTimes 0] (0, 0)
       = (result_err (Do Background alwaysFails [WithTimes (- 3)] (0, 0)),
          (result_config (Do Background alwaysFails [WithTimes (- 3)] (0, 0)))\<lparr>RetryTimes := 0\<rparr>,
          result_state (Do Background alwaysFails [WithTimes (- 3)] (0, 0)),
          result_trace (Do Background alwaysFails [WithTimes (- 3)] (0, 0)))"
proof -
  have h: "RetryTimes (NewConfig [WithTimes (- 3)] :: (string, world) Config) <s 0"
    by (simp add: NewConfig_def WithTimes_def word_sless_alt)
  have z: "(NewConfig [WithTimes (- 3)] :: (string, world) Config)\<lparr>RetryTimes := 0\<rparr>
             = NewConfig [WithTimes 0]"
    by (simp add: NewConfig_def WithTimes_def)
  have l: "Err Background (0, 0) = None" "fst (alwaysFails (0, 0)) = testErr"
    "unwrap testErr = testErr"
    by (simp_all add: Background_def alwaysFails_def unwrap_def testErr_def)
  show ?thesis
    using Do_negative_budget [OF h Do_result [of Background "[WithTimes (- 3)]" alwaysFails "(0, 0)"]]
    unfolding z l by (simp add: Do_def l)
qed

text \<open>
  Claim C10 as stated fails when the context is already cancelled: with \<open>WithTimes(-1)\<close>
  the operation is not invoked once but never.
\<close>

theorem Do_negative_budget_counterexample:
  "length (fn_calls (result_trace (Do Canceled alwaysFails [WithTimes (- 1)] (0, 0)))) \<noteq> 1"
  by (simp add: Do_def Config_Do_def Canceled_def result_trace_def)

end
